theory Spec2Isabelle
  imports
    Main
    "HOL-Library.Char_ord"
    "HOL-Library.List_Lexorder"
    "HOL-Library.Product_Lexorder"
begin

section \<open>The bigram counter of the notebook, as HOL functions\<close>

text \<open>
  The code modelled is section 11 of the notebook (``Putting It All Together: Counting
  Bigrams from names.txt''), two code cells that share the global variable \<open>words\<close>:
  \<^verbatim>\<open>
  # Count bigrams with a dictionary
  b = {}
  for w in words:
      chs = ['<S>'] + list(w) + ['<E>']  # Add start/end tokens
      for ch1, ch2 in zip(chs, chs[1:]):
          bigram = (ch1, ch2)
          b[bigram] = b.get(bigram, 0) + 1

  # Sort by count (descending)
  sorted_bigrams = sorted(b.items(), key=lambda kv: -kv[1])
  print("Top 10 bigrams (dictionary approach):", sorted_bigrams[:10])
  \<close>
  and
  \<^verbatim>\<open>
  chars = sorted(list(set(''.join(words))))
  chars = ['.'] + chars
  stoi = {s: i for i, s in enumerate(chars)}
  itos = {i: s for i, s in stoi.items()}
  N = np.zeros((len(chars), len(chars)), dtype=int)
  for w in words:
      chs = ['.'] + list(w) + ['.']
      for ch1, ch2 in zip(chs, chs[1:]):
          ix1 = stoi[ch1]
          ix2 = stoi[ch2]
          N[ix1, ix2] += 1
  \<close>
  A word is a \<open>string\<close>. A symbol (an element of \<open>chs\<close>, a key of \<open>stoi\<close>) is a Python
  string as well: a one-character string for a character of a word, the three-character
  strings \<open><S>\<close> and \<open><E>\<close> in the first cell, the string \<open>.\<close> in the second. Characters
  are ordered by their code (\<open>Char_ord\<close>), strings lexicographically, as Python orders
  them. HOL's \<open>char\<close> has 256 values where Python has all of Unicode; the names the
  notebook reads are ASCII, and no property below depends on how many characters there
  are. Counts are Python integers, hence \<open>int\<close>; the cells of \<open>N\<close> are 64-bit, and a
  corpus held in memory cannot take one of them near \<open>2^63\<close>, so they are \<open>int\<close> too.

  A one-character string is never \<open><S>\<close> or \<open><E>\<close>, so the boundary symbols of the
  first cell cannot clash with a character. The second cell's \<open>.\<close> can: a word may
  contain the character \<open>.\<close>, and nothing in the cell checks for it.
\<close>

subsection \<open>Python values, exceptions and dictionaries\<close>

datatype py_error = KeyError string | IndexError | ValueError

type_synonym symbol = string

type_synonym bigram = "symbol \<times> symbol"

text \<open>
  A dictionary keeps its keys in insertion order, and \<open>b.items()\<close> is read in that order by
  \<open>sorted\<close>, so a dictionary is an association list with distinct keys, oldest key first.
  \<open>d[k] = v\<close> overwrites the value of a key that is present, where it stands, and
  appends a key that is new.
\<close>

type_synonym ('k, 'v) dict = "('k \<times> 'v) list"

fun dict_setitem :: "('k, 'v) dict \<Rightarrow> 'k \<Rightarrow> 'v \<Rightarrow> ('k, 'v) dict" where
  "dict_setitem [] k v = [(k, v)]"
| "dict_setitem ((k', v') # d) k v =
     (if k' = k then (k', v) # d else (k', v') # dict_setitem d k v)"

definition dict_get :: "('k, 'v) dict \<Rightarrow> 'k \<Rightarrow> 'v \<Rightarrow> 'v" where
  "dict_get d k dflt = (case map_of d k of None \<Rightarrow> dflt | Some v \<Rightarrow> v)"

definition dict_getitem :: "(string, 'v) dict \<Rightarrow> string \<Rightarrow> py_error + 'v" where
  "dict_getitem d k = (case map_of d k of None \<Rightarrow> Inl (KeyError k) | Some v \<Rightarrow> Inr v)"

subsection \<open>The dictionary approach\<close>

definition list_str :: "string \<Rightarrow> symbol list" where
  "list_str w = map (\<lambda>c. [c]) w"

definition chs_SE :: "string \<Rightarrow> symbol list" where
  "chs_SE w = [''<S>''] @ list_str w @ [''<E>'']"

definition zip_next :: "'a list \<Rightarrow> ('a \<times> 'a) list" where
  "zip_next chs = zip chs (drop 1 chs)"

definition count_step :: "bigram \<Rightarrow> (bigram, int) dict \<Rightarrow> (bigram, int) dict" where
  "count_step bigram b = dict_setitem b bigram (dict_get b bigram 0 + 1)"

definition count_word :: "string \<Rightarrow> (bigram, int) dict \<Rightarrow> (bigram, int) dict" where
  "count_word w b = fold count_step (zip_next (chs_SE w)) b"

definition count_bigrams_sparse :: "string list \<Rightarrow> (bigram, int) dict" where
  "count_bigrams_sparse words = fold count_word words []"

definition sorted_bigrams :: "(bigram, int) dict \<Rightarrow> (bigram \<times> int) list" where
  "sorted_bigrams b = sort_key (\<lambda>kv. - snd kv) b"

definition top_bigrams :: "(bigram, int) dict \<Rightarrow> nat \<Rightarrow> (bigram \<times> int) list" where
  "top_bigrams b k = take k (sorted_bigrams b)"

definition sum_values :: "('k, int) dict \<Rightarrow> int" where
  "sum_values b = sum_list (map snd b)"






text \<open>
  Before the counting loop the first cell prints statistics of the data,
  \<^verbatim>\<open>min(len(w) for w in words)\<close> and \<^verbatim>\<open>max(len(w) for w in words)\<close>; Python's
  \<open>min\<close> and \<open>max\<close> raise \<open>ValueError\<close> on an empty sequence. These two lines are
  diagnostics: they are no part of the counting loop, and the second cell has nothing alike.
\<close>

definition name_length_stats :: "string list \<Rightarrow> py_error + (nat \<times> nat)" where
  "name_length_stats words =
     (if words = [] then Inl ValueError
      else Inr (Min (set (map length words)), Max (set (map length words))))"

subsection \<open>The 2D array approach\<close>

definition derive_chars :: "string list \<Rightarrow> symbol list" where
  "derive_chars words = sorted_list_of_set (set (list_str (concat words)))"

definition with_boundary :: "symbol list \<Rightarrow> symbol list" where
  "with_boundary chars = [''.''] @ chars"

text \<open>The variable \<open>chars\<close> of the second cell, once the boundary symbol is prepended.\<close>

definition chars_of :: "string list \<Rightarrow> symbol list" where
  "chars_of words = with_boundary (derive_chars words)"

definition stoi_of :: "symbol list \<Rightarrow> (symbol, nat) dict" where
  "stoi_of chars = fold (\<lambda>(i, s) d. dict_setitem d s i) (enumerate 0 chars) []"

text \<open>
  \<open>stoi.items()\<close> as Python sees it, a sequence of pairs of Python values, and the
  comprehension \<^verbatim>\<open>{i: s for i, s in stoi.items()}\<close>, which binds \<open>i\<close> to the key and
  \<open>s\<close> to the value of each item and stores \<open>s\<close> under \<open>i\<close>.
\<close>

datatype pyval = PyStr string | PyInt int

definition stoi_items :: "symbol list \<Rightarrow> (pyval \<times> pyval) list" where
  "stoi_items chars = map (\<lambda>(s, i). (PyStr s, PyInt (int i))) (stoi_of chars)"

definition itos_of :: "symbol list \<Rightarrow> (pyval, pyval) dict" where
  "itos_of chars = fold (\<lambda>(i, s) d. dict_setitem d i s) (stoi_items chars) []"

type_synonym matrix = "int list list"

definition zeros :: "nat \<Rightarrow> nat \<Rightarrow> matrix" where
  "zeros r c = replicate r (replicate c 0)"

text \<open>
  \<^verbatim>\<open>N[ix1, ix2] += 1\<close>. The indices come out of \<open>stoi\<close> and are never negative; NumPy
  raises \<open>IndexError\<close> for an index beyond the shape.
\<close>

definition incr_cell :: "matrix \<Rightarrow> nat \<Rightarrow> nat \<Rightarrow> py_error + matrix" where
  "incr_cell N ix1 ix2 =
     (if ix1 < length N \<and> ix2 < length (N ! ix1)
      then Inr (N[ix1 := (N ! ix1)[ix2 := N ! ix1 ! ix2 + 1]])
      else Inl IndexError)"

definition chs_dot :: "string \<Rightarrow> symbol list" where
  "chs_dot w = [''.''] @ list_str w @ [''.'']"

fun dense_pairs :: "(symbol, nat) dict \<Rightarrow> bigram list \<Rightarrow> matrix \<Rightarrow> py_error + matrix" where
  "dense_pairs stoi [] N = Inr N"
| "dense_pairs stoi ((ch1, ch2) # ps) N =
     (case dict_getitem stoi ch1 of
        Inl e \<Rightarrow> Inl e
      | Inr ix1 \<Rightarrow>
          (case dict_getitem stoi ch2 of
             Inl e \<Rightarrow> Inl e
           | Inr ix2 \<Rightarrow>
               (case incr_cell N ix1 ix2 of
                  Inl e \<Rightarrow> Inl e
                | Inr N' \<Rightarrow> dense_pairs stoi ps N')))"

fun dense_words :: "(symbol, nat) dict \<Rightarrow> string list \<Rightarrow> matrix \<Rightarrow> py_error + matrix" where
  "dense_words stoi [] N = Inr N"
| "dense_words stoi (w # ws) N =
     (case dense_pairs stoi (zip_next (chs_dot w)) N of
        Inl e \<Rightarrow> Inl e
      | Inr N' \<Rightarrow> dense_words stoi ws N')"

text \<open>
  The counting part of the second cell, from the line that builds \<open>stoi\<close> on: \<open>chars\<close> is
  the alphabet with the boundary symbol in it. An exception ends the cell, and the result
  is the exception alone: the array that \<open>N\<close> is bound to keeps the increments made
  before it, but the cell hands nothing on (its \<open>print(N)\<close> is not reached).
\<close>

definition count_bigrams_dense :: "symbol list \<Rightarrow> string list \<Rightarrow> py_error + matrix" where
  "count_bigrams_dense chars words =
     dense_words (stoi_of chars) words (zeros (length chars) (length chars))"

text \<open>The second cell as a whole: the alphabet is derived from the words that are counted.\<close>

definition dense_cell :: "string list \<Rightarrow> py_error + matrix" where
  "dense_cell words = count_bigrams_dense (chars_of words) words"

definition sum_matrix :: "matrix \<Rightarrow> int" where
  "sum_matrix N = sum_list (map sum_list N)"

subsection \<open>Notions used to state the properties\<close>

text \<open>The bigram occurrences each loop visits, in the order it visits them.\<close>

definition sparse_bigrams :: "string list \<Rightarrow> bigram list" where
  "sparse_bigrams words = concat (map (\<lambda>w. zip_next (chs_SE w)) words)"

definition dense_bigrams :: "string list \<Rightarrow> bigram list" where
  "dense_bigrams words = concat (map (\<lambda>w. zip_next (chs_dot w)) words)"

text \<open>
  The two cells mark the boundary differently: \<open><S>\<close> and \<open><E>\<close> in the dictionary,
  \<open>.\<close> in the array. \<open>dense_symbol\<close> reads a symbol of the dictionary as the symbol of
  the array, and \<open>index_of\<close> is its position according to \<open>stoi\<close>.
\<close>

definition dense_symbol :: "symbol \<Rightarrow> symbol" where
  "dense_symbol s = (if s = ''<S>'' \<or> s = ''<E>'' then ''.'' else s)"

definition index_of :: "symbol list \<Rightarrow> symbol \<Rightarrow> nat option" where
  "index_of chars s = map_of (stoi_of chars) (dense_symbol s)"

text \<open>How many of the bigram occurrences \<open>ps\<close> the mapping \<open>stoi\<close> sends to cell \<open>(i, j)\<close>.\<close>

definition hits :: "(symbol, nat) dict \<Rightarrow> bigram list \<Rightarrow> nat \<Rightarrow> nat \<Rightarrow> nat" where
  "hits stoi ps i j =
     length (filter (\<lambda>(ch1, ch2). map_of stoi ch1 = Some i \<and> map_of stoi ch2 = Some j) ps)"

definition square :: "nat \<Rightarrow> matrix \<Rightarrow> bool" where
  "square n N = (length N = n \<and> list_all (\<lambda>row. length row = n) N)"

definition counts_pos :: "('k, int) dict \<Rightarrow> bool" where
  "counts_pos b = list_all (\<lambda>kv. 1 \<le> snd kv) b"

text \<open>
  The ranking as the specification words it: by count descending, ties by the pair
  ascending (lexicographic on \<open>(prev, next)\<close>).
\<close>

definition top_bigrams_spec :: "(bigram, int) dict \<Rightarrow> nat \<Rightarrow> (bigram \<times> int) list" where
  "top_bigrams_spec b k = take k (sort_key (\<lambda>(pair, count). (- count, pair)) b)"

section \<open>Dictionaries\<close>

lemma map_of_dict_setitem: "map_of (dict_setitem d k v) = (map_of d)(k \<mapsto> v)"
  by (induction d) (auto simp: fun_eq_iff)

lemma keys_dict_setitem_old:
  "k \<in> fst ` set d \<Longrightarrow> map fst (dict_setitem d k v) = map fst d"
  by (induction d) force+

lemma dict_setitem_new: "k \<notin> fst ` set d \<Longrightarrow> dict_setitem d k v = d @ [(k, v)]"
  by (induction d) auto

lemma keys_dict_setitem:
  "map fst (dict_setitem d k v) = (if k \<in> fst ` set d then map fst d else map fst d @ [k])"
  by (simp add: keys_dict_setitem_old dict_setitem_new)

lemma distinct_dict_setitem:
  "distinct (map fst d) \<Longrightarrow> distinct (map fst (dict_setitem d k v))"
  by (simp add: keys_dict_setitem)

lemma set_dict_setitem: "set (dict_setitem d k v) \<subseteq> insert (k, v) (set d)"
  by (induction d) (auto split: if_splits)

lemma sum_values_setitem:
  "sum_values (dict_setitem d k v) = sum_values d - dict_get d k 0 + v"
  by (induction d) (auto simp: sum_values_def dict_get_def)

section \<open>The dictionary approach: totals, positivity, distinct keys\<close>

lemma sum_values_count_step: "sum_values (count_step p b) = sum_values b + 1"
  by (simp add: count_step_def sum_values_setitem)

lemma sum_values_fold_count_step:
  "sum_values (fold count_step ps b) = sum_values b + int (length ps)"
  by (induction ps arbitrary: b) (simp_all add: sum_values_count_step)

lemma length_zip_next: "length (zip_next chs) = length chs - 1"
  by (simp add: zip_next_def)

lemma length_bigrams_SE: "length (zip_next (chs_SE w)) = length w + 1"
  by (simp add: length_zip_next chs_SE_def list_str_def)

lemma sum_values_count_word: "sum_values (count_word w b) = sum_values b + int (length w) + 1"
  by (simp add: count_word_def sum_values_fold_count_step length_bigrams_SE)

lemma sum_values_fold_count_word:
  "sum_values (fold count_word ws b) = sum_values b + int (length (concat ws)) + int (length ws)"
  by (induction ws arbitrary: b) (simp_all add: sum_values_count_word)

lemma sum_values_sparse:
  "sum_values (count_bigrams_sparse words) = int (length (concat words)) + int (length words)"
  using sum_values_fold_count_word [of words "[]"]
  by (simp add: count_bigrams_sparse_def sum_values_def)

lemma dict_get_nonneg: "counts_pos b \<Longrightarrow> 0 \<le> dict_get b k 0"
  by (auto simp: counts_pos_def dict_get_def list_all_iff split: option.splits dest!: map_of_SomeD)

lemma counts_pos_count_step: "counts_pos b \<Longrightarrow> counts_pos (count_step p b)"
  using set_dict_setitem [of b p "dict_get b p 0 + 1"] dict_get_nonneg [of b p]
  by (auto simp: counts_pos_def count_step_def list_all_iff)

lemma counts_pos_fold_count_step: "counts_pos b \<Longrightarrow> counts_pos (fold count_step ps b)"
  by (induction ps arbitrary: b) (simp_all add: counts_pos_count_step)

lemma counts_pos_fold_count_word: "counts_pos b \<Longrightarrow> counts_pos (fold count_word ws b)"
  by (induction ws arbitrary: b) (simp_all add: count_word_def counts_pos_fold_count_step)

lemma counts_pos_sparse: "counts_pos (count_bigrams_sparse words)"
  using counts_pos_fold_count_word [of "[]" words]
  by (simp add: count_bigrams_sparse_def counts_pos_def)

lemma distinct_count_step: "distinct (map fst b) \<Longrightarrow> distinct (map fst (count_step p b))"
  by (simp add: count_step_def distinct_dict_setitem)

lemma distinct_fold_count_step:
  "distinct (map fst b) \<Longrightarrow> distinct (map fst (fold count_step ps b))"
  by (induction ps arbitrary: b) (simp_all add: distinct_count_step)

lemma distinct_fold_count_word:
  "distinct (map fst b) \<Longrightarrow> distinct (map fst (fold count_word ws b))"
  by (induction ws arbitrary: b) (simp_all add: count_word_def distinct_fold_count_step)

lemma distinct_sparse: "distinct (map fst (count_bigrams_sparse words))"
  by (simp add: count_bigrams_sparse_def distinct_fold_count_word)

text \<open>
  C9. Every entry of the table that the dictionary loop builds has a count of at least 1:
  no key is stored with the count 0 (or less), whatever the word list. The keys of the
  table are distinct, so an entry is what a lookup of its key returns.
\<close>

theorem sparse_counts_at_least_one:
  "(bigram, count) \<in> set (count_bigrams_sparse words) \<Longrightarrow>
     1 \<le> count \<and> map_of (count_bigrams_sparse words) bigram = Some count"
  using counts_pos_sparse [of words] distinct_sparse [of words]
  by (auto simp: counts_pos_def list_all_iff)

theorem sparse_counts_at_least_one_witness:
  "((''a'', ''a''), 2) \<in> set (count_bigrams_sparse [''aaa'']) \<and>
   map_of (count_bigrams_sparse [''aaa'']) (''a'', ''a'') = Some 2"
proof -
  have h: "((''a'', ''a''), 2) \<in> set (count_bigrams_sparse [''aaa''])"
    by code_simp
  from sparse_counts_at_least_one [OF h] h show ?thesis
    by simp
qed

section \<open>The index mapping \<open>stoi\<close>\<close>

lemma map_of_fold_setitem:
  "map_of (fold (\<lambda>(i, s) d. dict_setitem d s i) xs d) =
     map_of d ++ map_of (rev (map (\<lambda>(i, s). (s, i)) xs))"
proof (induction xs arbitrary: d)
  case Nil
  show ?case by simp
next
  case (Cons x xs)
  obtain i s where x: "x = (i, s)" by (cases x)
  show ?case
    by (auto simp: x Cons.IH map_of_dict_setitem fun_eq_iff map_add_def split: option.splits)
qed

lemma map_of_stoi:
  "map_of (stoi_of chars) = map_of (rev (map (\<lambda>(i, s). (s, i)) (enumerate 0 chars)))"
  by (simp add: stoi_of_def map_of_fold_setitem)

lemma stoi_SomeD:
  assumes "map_of (stoi_of chars) s = Some i"
  shows "i < length chars \<and> chars ! i = s"
proof -
  from assms have "(s, i) \<in> set (rev (map (\<lambda>(i, s). (s, i)) (enumerate 0 chars)))"
    by (simp only: map_of_stoi) (rule map_of_SomeD)
  then have "(i, s) \<in> set (enumerate 0 chars)"
    by auto
  then show ?thesis
    by (simp add: in_set_enumerate_eq)
qed

lemma dom_stoi: "dom (map_of (stoi_of chars)) = set chars"
proof -
  have "fst ` set (map (\<lambda>(i, s). (s, i)) (enumerate 0 chars)) = snd ` set (enumerate 0 chars)"
    by (force simp: image_iff)
  also have "\<dots> = set chars"
    using map_snd_enumerate [of 0 chars] by (metis set_map)
  finally show ?thesis
    by (simp add: map_of_stoi dom_map_of_conv_image_fst)
qed

lemma stoi_inj:
  "map_of (stoi_of chars) s = Some i \<Longrightarrow> map_of (stoi_of chars) t = Some i \<Longrightarrow> s = t"
  using stoi_SomeD by blast

lemma stoi_member: "s \<in> set chars \<Longrightarrow> \<exists>i. map_of (stoi_of chars) s = Some i"
  using dom_stoi [of chars] by auto


lemma stoi_distinct_nth:
  assumes "distinct chars" "i < length chars"
  shows "map_of (stoi_of chars) (chars ! i) = Some i"
proof -
  from assms(2) obtain j where j: "map_of (stoi_of chars) (chars ! i) = Some j"
    using stoi_member [of "chars ! i" chars] by auto
  then have "j < length chars" "chars ! j = chars ! i"
    using stoi_SomeD by blast+
  with assms have "j = i"
    by (simp add: nth_eq_iff_index_eq)
  with j show ?thesis by simp
qed

lemma distinct_keys_fold_setitem:
  "distinct (map fst d) \<Longrightarrow> distinct (map fst (fold (\<lambda>(i, s) d. dict_setitem d s i) xs d))"
  by (induction xs arbitrary: d) (auto simp: distinct_dict_setitem)

lemma distinct_keys_stoi: "distinct (map fst (stoi_of chars))"
  by (simp add: stoi_of_def distinct_keys_fold_setitem)

section \<open>Matrices\<close>

lemma sum_list_update_int:
  "i < length xs \<Longrightarrow> sum_list (xs[i := v]) = sum_list xs - xs ! i + (v::int)"
proof (induction xs arbitrary: i)
  case Nil
  then show ?case by simp
next
  case (Cons x xs)
  then show ?case by (cases i) simp_all
qed

lemma sum_matrix_update:
  assumes "i < length N"
  shows "sum_matrix (N[i := row]) = sum_matrix N - sum_list (N ! i) + sum_list row"
  using assms sum_list_update_int [of i "map sum_list N" "sum_list row"]
  by (simp add: sum_matrix_def map_update)

lemma sum_matrix_incr:
  assumes "i < length N" "j < length (N ! i)"
  shows "sum_matrix (N[i := (N ! i)[j := N ! i ! j + 1]]) = sum_matrix N + 1"
  using assms by (simp add: sum_matrix_update sum_list_update_int)

lemma square_rowD: "square n N \<Longrightarrow> i < n \<Longrightarrow> length (N ! i) = n"
  by (auto simp: square_def list_all_length)

lemma square_incr:
  assumes "square n N"
  shows "square n (N[i := (N ! i)[j := v]])"
proof (cases "i < length N")
  case True
  with assms show ?thesis
    by (auto simp: square_def list_all_length nth_list_update)
next
  case False
  then have "N[i := (N ! i)[j := v]] = N"
    by (intro list_update_beyond) simp
  with assms show ?thesis by simp
qed

lemma nth_incr:
  assumes "square n N" "a < n" "b < n" "i < n" "j < n"
  shows "N[i := (N ! i)[j := v]] ! a ! b = (if a = i \<and> b = j then v else N ! a ! b)"
  using assms square_rowD [OF assms(1)]
  by (auto simp: square_def nth_list_update)

lemma incr_cell_ok:
  assumes "square n N" "i < n" "j < n"
  shows "incr_cell N i j = Inr (N[i := (N ! i)[j := N ! i ! j + 1]])"
  using assms square_rowD [OF assms(1,2)] by (simp add: incr_cell_def square_def)

lemma square_zeros: "square n (zeros n n)"
  by (simp add: square_def zeros_def list_all_length)

lemma nth_zeros: "i < n \<Longrightarrow> j < n \<Longrightarrow> zeros n n ! i ! j = 0"
  by (simp add: zeros_def)

lemma sum_matrix_zeros: "sum_matrix (zeros r c) = 0"
  by (simp add: sum_matrix_def zeros_def sum_list_replicate)

section \<open>The array loop\<close>

lemma hits_Nil: "hits stoi [] i j = 0"
  by (simp add: hits_def)

lemma hits_Cons:
  "hits stoi ((ch1, ch2) # ps) i j =
     (if map_of stoi ch1 = Some i \<and> map_of stoi ch2 = Some j then 1 else 0) + hits stoi ps i j"
  by (simp add: hits_def)

lemma dense_pairs_ok:
  assumes "square n N"
    and "\<forall>s i. map_of stoi s = Some i \<longrightarrow> i < n"
    and "\<forall>(ch1, ch2)\<in>set ps. map_of stoi ch1 \<noteq> None \<and> map_of stoi ch2 \<noteq> None"
  shows "\<exists>N'. dense_pairs stoi ps N = Inr N' \<and> square n N' \<and>
           sum_matrix N' = sum_matrix N + int (length ps) \<and>
           (\<forall>i<n. \<forall>j<n. N' ! i ! j = N ! i ! j + int (hits stoi ps i j))"
  using assms
proof (induction ps arbitrary: N)
  case Nil
  then show ?case by (simp add: hits_Nil)
next
  case (Cons p ps)
  obtain ch1 ch2 where p: "p = (ch1, ch2)" by (cases p)
  from Cons.prems(3) obtain ix1 ix2
    where ix: "map_of stoi ch1 = Some ix1" "map_of stoi ch2 = Some ix2"
    by (auto simp: p)
  then have lt: "ix1 < n" "ix2 < n"
    using Cons.prems(2) by blast+
  define M where "M = N[ix1 := (N ! ix1)[ix2 := N ! ix1 ! ix2 + 1]]"
  have sqM: "square n M"
    unfolding M_def by (rule square_incr [OF Cons.prems(1)])
  have step: "dense_pairs stoi (p # ps) N = dense_pairs stoi ps M"
    using incr_cell_ok [OF Cons.prems(1) lt]
    by (simp add: p ix dict_getitem_def M_def)
  have sumM: "sum_matrix M = sum_matrix N + 1"
    unfolding M_def using Cons.prems(1) lt square_rowD [OF Cons.prems(1) lt(1)]
    by (intro sum_matrix_incr) (simp_all add: square_def)
  have cellM: "M ! i ! j = N ! i ! j + (if i = ix1 \<and> j = ix2 then 1 else 0)"
    if "i < n" "j < n" for i j
    unfolding M_def using nth_incr [OF Cons.prems(1) that lt] by simp
  from Cons.prems(3) have "\<forall>(ch1, ch2)\<in>set ps. map_of stoi ch1 \<noteq> None \<and> map_of stoi ch2 \<noteq> None"
    by simp
  from Cons.IH [OF sqM Cons.prems(2) this]
  obtain N' where N': "dense_pairs stoi ps M = Inr N'" "square n N'"
    "sum_matrix N' = sum_matrix M + int (length ps)"
    "\<forall>i<n. \<forall>j<n. N' ! i ! j = M ! i ! j + int (hits stoi ps i j)"
    by auto
  have "N' ! i ! j = N ! i ! j + int (hits stoi (p # ps) i j)" if "i < n" "j < n" for i j
    using N'(4) cellM [OF that] that by (auto simp: p hits_Cons ix)
  with N' step sumM show ?case
    by simp
qed


lemma dense_pairs_append:
  "dense_pairs stoi (ps @ qs) N =
     (case dense_pairs stoi ps N of Inl e \<Rightarrow> Inl e | Inr N' \<Rightarrow> dense_pairs stoi qs N')"
  by (induction stoi ps N rule: dense_pairs.induct) (auto split: sum.splits)

lemma dense_words_pairs: "dense_words stoi ws N = dense_pairs stoi (dense_bigrams ws) N"
  by (induction ws arbitrary: N) (auto simp: dense_bigrams_def dense_pairs_append split: sum.splits)

section \<open>The bigram occurrences of a corpus\<close>

lemma zip_next_bracket: "zip_next (a # xs @ [e]) = zip (a # xs) (xs @ [e])"
  using zip_append1 [of "a # xs" "[e]" "xs @ [e]"] by (simp add: zip_next_def)

lemma fst_zip_next_bracket: "map fst (zip_next (a # xs @ [e])) = a # xs"
  by (simp only: zip_next_bracket) simp

lemma snd_zip_next_bracket: "map snd (zip_next (a # xs @ [e])) = xs @ [e]"
  by (simp only: zip_next_bracket) simp

lemma length_bigrams_dot: "length (zip_next (chs_dot w)) = length w + 1"
  by (simp add: length_zip_next chs_dot_def list_str_def)

lemma length_dense_bigrams:
  "length (dense_bigrams words) = length (concat words) + length words"
  by (induction words) (simp_all add: dense_bigrams_def length_bigrams_dot)

lemma length_sparse_bigrams:
  "length (sparse_bigrams words) = length (concat words) + length words"
  by (induction words) (simp_all add: sparse_bigrams_def length_bigrams_SE)

lemma map_fst_dense_bigrams:
  "map fst (dense_bigrams words) = concat (map (\<lambda>w. ''.'' # list_str w) words)"
  by (induction words) (simp_all add: dense_bigrams_def chs_dot_def fst_zip_next_bracket)

lemma map_snd_dense_bigrams:
  "map snd (dense_bigrams words) = concat (map (\<lambda>w. list_str w @ [''.'']) words)"
  by (induction words) (simp_all add: dense_bigrams_def chs_dot_def snd_zip_next_bracket)

lemma fst_dense_iff:
  "s \<in> fst ` set (dense_bigrams words) \<longleftrightarrow>
     (\<exists>w\<in>set words. s = ''.'' \<or> s \<in> set (list_str w))"
proof -
  have "s \<in> fst ` set (dense_bigrams words) \<longleftrightarrow> s \<in> set (map fst (dense_bigrams words))"
    by simp
  also have "\<dots> \<longleftrightarrow> (\<exists>w\<in>set words. s \<in> set (''.'' # list_str w))"
    unfolding map_fst_dense_bigrams by (simp only: set_concat set_map UN_iff bex_simps image_iff)
  also have "\<dots> \<longleftrightarrow> (\<exists>w\<in>set words. s = ''.'' \<or> s \<in> set (list_str w))"
    by auto
  finally show ?thesis .
qed

lemma snd_dense_iff:
  "s \<in> snd ` set (dense_bigrams words) \<longleftrightarrow>
     (\<exists>w\<in>set words. s = ''.'' \<or> s \<in> set (list_str w))"
proof -
  have "s \<in> snd ` set (dense_bigrams words) \<longleftrightarrow> s \<in> set (map snd (dense_bigrams words))"
    by simp
  also have "\<dots> \<longleftrightarrow> (\<exists>w\<in>set words. s \<in> set (list_str w @ [''.'']))"
    unfolding map_snd_dense_bigrams by (simp only: set_concat set_map UN_iff bex_simps image_iff)
  also have "\<dots> \<longleftrightarrow> (\<exists>w\<in>set words. s = ''.'' \<or> s \<in> set (list_str w))"
    by auto
  finally show ?thesis .
qed

lemma symbols_dense_bigrams:
  assumes "(ch1, ch2) \<in> set (dense_bigrams words)"
  shows "\<exists>w\<in>set words. ch1 = ''.'' \<or> ch1 \<in> set (list_str w)"
    and "\<exists>w\<in>set words. ch2 = ''.'' \<or> ch2 \<in> set (list_str w)"
proof -
  from assms have "ch1 \<in> fst ` set (dense_bigrams words)" "ch2 \<in> snd ` set (dense_bigrams words)"
    by force+
  then show "\<exists>w\<in>set words. ch1 = ''.'' \<or> ch1 \<in> set (list_str w)"
    and "\<exists>w\<in>set words. ch2 = ''.'' \<or> ch2 \<in> set (list_str w)"
    by (simp_all only: fst_dense_iff snd_dense_iff)
qed

lemma stoi_bound: "\<forall>s i. map_of (stoi_of chars) s = Some i \<longrightarrow> i < length chars"
  using stoi_SomeD by blast

lemma in_list_str: "s \<in> set (list_str w) \<longleftrightarrow> (\<exists>c\<in>set w. s = [c])"
  by (auto simp: list_str_def)

lemma dense_ok:
  assumes "''.'' \<in> set chars" "\<forall>w\<in>set words. \<forall>c\<in>set w. [c] \<in> set chars"
  shows "\<exists>N. count_bigrams_dense chars words = Inr N \<and> square (length chars) N \<and>
           sum_matrix N = int (length (concat words)) + int (length words) \<and>
           (\<forall>i<length chars. \<forall>j<length chars.
              N ! i ! j = int (hits (stoi_of chars) (dense_bigrams words) i j))"
proof -
  have sub: "s \<in> set chars" if "\<exists>w\<in>set words. s = ''.'' \<or> s \<in> set (list_str w)" for s
    using that assms by (auto simp: in_list_str)
  have "\<forall>(ch1, ch2)\<in>set (dense_bigrams words).
          map_of (stoi_of chars) ch1 \<noteq> None \<and> map_of (stoi_of chars) ch2 \<noteq> None"
  proof (clarify, rule conjI)
    fix ch1 ch2 assume "(ch1, ch2) \<in> set (dense_bigrams words)"
    from symbols_dense_bigrams [OF this] have "ch1 \<in> set chars" "ch2 \<in> set chars"
      by (simp_all add: sub)
    then show "map_of (stoi_of chars) ch1 \<noteq> None" "map_of (stoi_of chars) ch2 \<noteq> None"
      using stoi_member by fastforce+
  qed
  from dense_pairs_ok [OF square_zeros stoi_bound this]
  show ?thesis
    by (auto simp: count_bigrams_dense_def dense_words_pairs sum_matrix_zeros nth_zeros
        length_dense_bigrams)
qed


lemma set_derive_chars: "set (derive_chars words) = set (list_str (concat words))"
  unfolding derive_chars_def by (rule set_sorted_list_of_set) simp

lemma dense_cell_ok:
  "\<exists>N. dense_cell words = Inr N \<and> square (Suc (length (derive_chars words))) N \<and>
       sum_matrix N = int (length (concat words)) + int (length words) \<and>
       (\<forall>i<Suc (length (derive_chars words)). \<forall>j<Suc (length (derive_chars words)).
          N ! i ! j = int (hits (stoi_of (with_boundary (derive_chars words))) (dense_bigrams words) i j))"
proof -
  have "''.'' \<in> set (with_boundary (derive_chars words))"
    by (simp add: with_boundary_def)
  moreover have "\<forall>w\<in>set words. \<forall>c\<in>set w. [c] \<in> set (with_boundary (derive_chars words))"
    by (auto simp: with_boundary_def set_derive_chars in_list_str)
  ultimately show ?thesis
    using dense_ok [of "with_boundary (derive_chars words)" words]
    by (simp add: dense_cell_def chars_of_def with_boundary_def)
qed

section \<open>Totals\<close>

text \<open>
  C2. For a word list with \<open>W\<close> words and \<open>C\<close> characters in total, the counts of the
  dictionary sum to \<open>C + W\<close>, and so do the cells of the array (which the second cell
  always builds without an exception when the alphabet is derived from the same words);
  counting one word of length \<open>L\<close> adds \<open>L + 1\<close> to the total.
\<close>

theorem total_count_chars_plus_words:
  "sum_values (count_bigrams_sparse words) =
     int (sum_list (map length words)) + int (length words) \<and>
   (\<exists>N. dense_cell words = Inr N \<and>
        sum_matrix N = int (sum_list (map length words)) + int (length words)) \<and>
   sum_values (count_word w b) = sum_values b + (int (length w) + 1)"
  using dense_cell_ok [of words]
  by (auto simp: sum_values_sparse length_concat sum_values_count_word)

section \<open>The empty corpus\<close>

text \<open>
  C3, as the code has it. For the empty word list nothing raises: the alphabet derivation
  returns the empty sequence (the alphabet with the boundary symbol is \<open>['.']\<close>), the
  dictionary loop returns the empty table, and the array loop returns the 1 by 1 matrix
  \<open>[[0]]\<close>.
\<close>

theorem empty_corpus_returns:
  "derive_chars [] = [] \<and> with_boundary (derive_chars []) = [''.''] \<and>
   count_bigrams_sparse [] = [] \<and> count_bigrams_dense [''.''] [] = Inr [[0]] \<and>
   dense_cell [] = Inr [[0]]"
  by (simp add: derive_chars_def list_str_def with_boundary_def chars_of_def
      count_bigrams_sparse_def count_bigrams_dense_def dense_cell_def zeros_def)

text \<open>
  C3, as stated (the three operations fail on the empty word list and never return an
  empty alphabet or table), is false: the array cell does not end in an exception, and
  the table and the alphabet returned are empty.
\<close>

theorem empty_corpus_counterexample:
  "\<not> isl (dense_cell []) \<and> count_bigrams_sparse [] = [] \<and> derive_chars [] = []"
  by (simp add: derive_chars_def list_str_def with_boundary_def chars_of_def
      count_bigrams_sparse_def count_bigrams_dense_def dense_cell_def zeros_def)

text \<open>
  The only statement of the two cells that raises on an empty word list is the printing
  of the length statistics, ahead of the dictionary loop.
\<close>

lemma name_length_stats_empty: "name_length_stats [] = Inl ValueError"
  by (simp add: name_length_stats_def)

section \<open>Determinism\<close>


section \<open>The array approach: unknown symbols, shape and cells\<close>



lemma stoi_boundary_zero:
  assumes "''.'' \<notin> set cs"
  shows "map_of (stoi_of (''.'' # cs)) ''.'' = Some 0"
proof -
  obtain i where i: "map_of (stoi_of (''.'' # cs)) ''.'' = Some i"
    using stoi_member [of "''.''" "''.'' # cs"] by auto
  from stoi_SomeD [OF i] have "i < Suc (length cs)" "(''.'' # cs) ! i = ''.''"
    by simp_all
  with assms have "i = 0"
    by (cases i) (auto dest: nth_mem)
  with i show ?thesis by simp
qed

text \<open>
  C8, as the code has it. Let the alphabet \<open>chars\<close> have the boundary symbol \<open>.\<close>
  first, and let every character of every word be in it. Then the array loop returns a
  matrix with \<open>length chars\<close> rows of \<open>length chars\<close> cells; every cell is 0 before a
  word is counted; afterwards the cell \<open>(i, j)\<close> holds the number of bigram occurrences
  \<open>(ch1, ch2)\<close> of the corpus with \<open>stoi[ch1] = i\<close> and \<open>stoi[ch2] = j\<close>, the cells
  adding up to the number of occurrences (each occurrence has added one to exactly one
  cell); and \<open>stoi\<close> gives the boundary symbol the index 0 if \<open>.\<close> occurs nowhere else
  in the alphabet.
\<close>

theorem dense_matrix_shape_and_cells:
  assumes "chars = ''.'' # cs"
    and "\<forall>w\<in>set words. \<forall>c\<in>set w. [c] \<in> set chars"
  shows "count_bigrams_dense chars [] = Inr (replicate (length chars) (replicate (length chars) 0)) \<and>
         (''.'' \<notin> set cs \<longrightarrow> dict_getitem (stoi_of chars) ''.'' = Inr 0) \<and>
         (\<exists>N. count_bigrams_dense chars words = Inr N \<and>
            length N = length chars \<and> (\<forall>row\<in>set N. length row = length chars) \<and>
            sum_matrix N = int (length (dense_bigrams words)) \<and>
            (\<forall>i<length chars. \<forall>j<length chars.
               N ! i ! j = int (hits (stoi_of chars) (dense_bigrams words) i j)))"
proof (intro conjI impI)
  show "count_bigrams_dense chars [] = Inr (replicate (length chars) (replicate (length chars) 0))"
    by (simp add: count_bigrams_dense_def zeros_def)
  show "dict_getitem (stoi_of chars) ''.'' = Inr 0" if "''.'' \<notin> set cs"
    using stoi_boundary_zero [OF that] by (simp add: dict_getitem_def assms(1))
  have "''.'' \<in> set chars"
    by (simp add: assms(1))
  from dense_ok [OF this assms(2)]
  show "\<exists>N. count_bigrams_dense chars words = Inr N \<and>
            length N = length chars \<and> (\<forall>row\<in>set N. length row = length chars) \<and>
            sum_matrix N = int (length (dense_bigrams words)) \<and>
            (\<forall>i<length chars. \<forall>j<length chars.
               N ! i ! j = int (hits (stoi_of chars) (dense_bigrams words) i j))"
    by (auto simp: square_def list_all_iff length_dense_bigrams)
qed

theorem dense_matrix_shape_and_cells_witness:
  "count_bigrams_dense [''.'', ''a'', ''b''] [''ab'', ''b''] = Inr [[0, 1, 1], [0, 0, 1], [2, 0, 0]] \<and>
   dict_getitem (stoi_of [''.'', ''a'', ''b'']) ''.'' = Inr 0 \<and>
   hits (stoi_of [''.'', ''a'', ''b'']) (dense_bigrams [''ab'', ''b'']) 2 0 = 2"
proof -
  have h1: "[''.'', ''a'', ''b''] = ''.'' # [''a'', ''b'']" by simp
  have h2: "''.'' \<notin> set [''a'', ''b'']" by simp
  have h3: "\<forall>w\<in>set [''ab'', ''b'']. \<forall>c\<in>set w. [c] \<in> set [''.'', ''a'', ''b'']" by simp
  have v: "count_bigrams_dense [''.'', ''a'', ''b''] [''ab'', ''b''] = Inr [[0, 1, 1], [0, 0, 1], [2, 0, 0]]"
    by code_simp
  from dense_matrix_shape_and_cells [OF h1 h3] h2
  obtain N where N: "count_bigrams_dense [''.'', ''a'', ''b''] [''ab'', ''b''] = Inr N"
    and z: "dict_getitem (stoi_of [''.'', ''a'', ''b'']) ''.'' = Inr 0"
    and cells: "\<forall>i<length [''.'', ''a'', ''b'']. \<forall>j<length [''.'', ''a'', ''b''].
        N ! i ! j = int (hits (stoi_of [''.'', ''a'', ''b'']) (dense_bigrams [''ab'', ''b'']) i j)"
    by blast
  from N v have "N = [[0, 1, 1], [0, 0, 1], [2, 0, 0]]"
    by simp
  with cells [rule_format, of 2 0]
  have "hits (stoi_of [''.'', ''a'', ''b'']) (dense_bigrams [''ab'', ''b'']) 2 0 = 2"
    by simp
  with z have "dict_getitem (stoi_of [''.'', ''a'', ''b'']) ''.'' = Inr 0 \<and>
      hits (stoi_of [''.'', ''a'', ''b'']) (dense_bigrams [''ab'', ''b'']) 2 0 = 2"
    by simp
  with v show ?thesis by simp
qed

text \<open>
  C8, as stated (the boundary symbol occupies index 0, for every word list drawn from
  the alphabet), is false when the alphabet is the one the cell derives from a corpus
  with the character \<open>.\<close> in it. For the single word \<open>.a\<close> the alphabet is
  \<open>['.', '.', 'a']\<close>, the matrix is 3 by 3 for two distinct symbols, \<open>stoi\<close> gives
  the boundary symbol the index 1, and row 0 and column 0 stay zero.
\<close>

theorem dense_boundary_index_counterexample:
  "chars_of [''.a''] = [''.'', ''.'', ''a''] \<and>
   dict_getitem (stoi_of (chars_of [''.a''])) ''.'' = Inr 1 \<and>
   count_bigrams_dense (chars_of [''.a'']) [''.a''] = Inr [[0, 0, 0], [0, 1, 1], [0, 1, 0]]"
  by code_simp

section \<open>The alphabet\<close>

lemma derive_chars_list_str:
  "derive_chars words = list_str (sorted_list_of_set (set (concat words)))"
proof -
  let ?cs = "sorted_list_of_set (set (concat words))"
  have "sorted ?cs"
    by simp
  then have "sorted_wrt (\<lambda>c d. [c] \<le> [d]) ?cs"
    by (rule sorted_wrt_mono_rel [rotated]) (auto simp: Cons_le_Cons)
  then have 1: "sorted (list_str ?cs)"
    by (simp add: list_str_def sorted_map)
  have 2: "distinct (list_str ?cs)"
    by (simp add: list_str_def distinct_map inj_on_def)
  have "set (list_str (concat words)) = set (list_str ?cs)"
    by (simp add: list_str_def)
  then have "derive_chars words = sorted_list_of_set (set (list_str ?cs))"
    by (simp only: derive_chars_def)
  also have "\<dots> = list_str ?cs"
    using 1 2 by (rule sorted_list_of_set.idem_if_sorted_distinct)
  finally show ?thesis .
qed

text \<open>
  C7. The alphabet derivation returns the one-character strings of exactly the characters
  that occur in some word, each once, in strictly ascending order: as strings, and, read
  as characters, by character code. This holds for every word list, the empty one
  included.
\<close>

theorem derive_chars_sorted_distinct:
  "set (derive_chars words) = {[c] |c. \<exists>w\<in>set words. c \<in> set w} \<and>
   distinct (derive_chars words) \<and>
   sorted_wrt (<) (derive_chars words) \<and>
   (\<exists>cs. derive_chars words = list_str cs \<and> set cs = set (concat words) \<and>
         sorted_wrt (\<lambda>c d. (of_char c :: nat) < of_char d) cs)"
proof (intro conjI)
  show "set (derive_chars words) = {[c] |c. \<exists>w\<in>set words. c \<in> set w}"
    unfolding set_derive_chars list_str_def by auto
  show "distinct (derive_chars words)"
    by (simp add: derive_chars_def)
  show "sorted_wrt (<) (derive_chars words)"
    unfolding derive_chars_def by (rule strict_sorted_list_of_set)
  have "sorted_wrt (<) (sorted_list_of_set (set (concat words)))"
    by (rule strict_sorted_list_of_set)
  then have "sorted_wrt (\<lambda>c d. (of_char c :: nat) < of_char d)
      (sorted_list_of_set (set (concat words)))"
    by (simp add: less_char_def [abs_def])
  then show "\<exists>cs. derive_chars words = list_str cs \<and> set cs = set (concat words) \<and>
         sorted_wrt (\<lambda>c d. (of_char c :: nat) < of_char d) cs"
    using derive_chars_list_str [of words] by (intro exI [of _ "sorted_list_of_set (set (concat words))"]) simp
qed

section \<open>The mapping \<open>itos\<close>\<close>

lemma fold_setitem_rebuild:
  "distinct (map fst xs) \<Longrightarrow> fst ` set xs \<inter> fst ` set d = {} \<Longrightarrow>
     fold (\<lambda>(k, v) d. dict_setitem d k v) xs d = d @ xs"
proof (induction xs arbitrary: d)
  case Nil
  show ?case by simp
next
  case (Cons x xs)
  obtain k v where x: "x = (k, v)" by (cases x)
  from Cons.prems have new: "k \<notin> fst ` set d"
    by (auto simp: x)
  from Cons.prems have "distinct (map fst xs)" "fst ` set xs \<inter> fst ` set (d @ [(k, v)]) = {}"
    by (auto simp: x)
  from Cons.IH [OF this] show ?case
    by (simp add: x dict_setitem_new [OF new])
qed

lemma distinct_keys_stoi_items: "distinct (map fst (stoi_items chars))"
proof -
  have "map fst (stoi_items chars) = map PyStr (map fst (stoi_of chars))"
    by (simp add: stoi_items_def case_prod_unfold)
  then show ?thesis
    using distinct_keys_stoi [of chars] by (simp add: distinct_map inj_on_def)
qed

lemma itos_is_stoi: "itos_of chars = stoi_items chars"
  using fold_setitem_rebuild [OF distinct_keys_stoi_items, of chars "[]"]
  by (simp add: itos_of_def)

lemma map_of_py_items_str:
  "map_of (map (\<lambda>(s, i). (PyStr s, PyInt (int i))) xs) (PyStr c) =
     map_option (\<lambda>i. PyInt (int i)) (map_of xs c)"
  by (induction xs) auto

lemma map_of_py_items_int:
  "map_of (map (\<lambda>(s, i). (PyStr s, PyInt (int i))) xs) (PyInt j) = None"
  by (induction xs) auto

text \<open>
  C6. The dictionary the comprehension \<^verbatim>\<open>{i: s for i, s in stoi.items()}\<close> builds is
  \<open>stoi\<close> again, item by item, not its inverse: for every symbol \<open>c\<close> of the alphabet
  \<open>itos[c]\<close> is \<open>stoi[c]\<close>, and no integer is a key of \<open>itos\<close>, so a matrix index
  cannot be turned back into a symbol through it.
\<close>

theorem itos_equals_stoi:
  "itos_of chars = stoi_items chars \<and>
   (\<forall>c\<in>set chars. \<exists>i. dict_getitem (stoi_of chars) c = Inr i \<and>
       map_of (itos_of chars) (PyStr c) = Some (PyInt (int i))) \<and>
   (\<forall>j. map_of (itos_of chars) (PyInt j) = None)"
proof (intro conjI ballI allI)
  show "itos_of chars = stoi_items chars"
    by (rule itos_is_stoi)
  show "map_of (itos_of chars) (PyInt j) = None" for j
    by (simp add: itos_is_stoi stoi_items_def map_of_py_items_int)
  fix c assume "c \<in> set chars"
  from stoi_member [OF this] obtain i where "map_of (stoi_of chars) c = Some i" ..
  then show "\<exists>i. dict_getitem (stoi_of chars) c = Inr i \<and>
       map_of (itos_of chars) (PyStr c) = Some (PyInt (int i))"
    by (simp add: itos_is_stoi stoi_items_def map_of_py_items_str dict_getitem_def)
qed

theorem itos_equals_stoi_witness:
  "itos_of (with_boundary (derive_chars [''ab''])) =
     [(PyStr ''.'', PyInt 0), (PyStr ''a'', PyInt 1), (PyStr ''b'', PyInt 2)] \<and>
   map_of (itos_of (with_boundary (derive_chars [''ab'']))) (PyStr ''b'') = Some (PyInt 2) \<and>
   map_of (itos_of (with_boundary (derive_chars [''ab'']))) (PyInt 2) = None"
proof -
  have v: "itos_of (with_boundary (derive_chars [''ab''])) =
     [(PyStr ''.'', PyInt 0), (PyStr ''a'', PyInt 1), (PyStr ''b'', PyInt 2)]"
    by code_simp
  have m: "''b'' \<in> set (with_boundary (derive_chars [''ab'']))"
    by code_simp
  from itos_equals_stoi [of "with_boundary (derive_chars [''ab''])"] m
  have "map_of (itos_of (with_boundary (derive_chars [''ab'']))) (PyInt 2) = None"
    by blast
  with v show ?thesis
    by simp
qed

section \<open>The ranking\<close>

text \<open>
  C5, as the code has it. \<open>top_bigrams b k\<close> is \<^verbatim>\<open>sorted_bigrams[:k]\<close> (the cell prints
  it for \<open>k = 10\<close>): the first \<open>min k (len b)\<close> entries of the entries of \<open>b\<close> ordered
  by count descending, where entries of equal count keep the order they have in \<open>b\<close>
  (the insertion order of the dictionary; Python's sort is stable and the key is the
  count alone). It is empty for \<open>k = 0\<close>, it is the whole ranking for \<open>k\<close> at least
  the number of entries, and nothing in it can raise.
\<close>

theorem top_bigrams_by_count_stable:
  "top_bigrams b k = take (min k (length b)) (sorted_bigrams b) \<and>
   length (top_bigrams b k) = min k (length b) \<and>
   top_bigrams b 0 = [] \<and>
   (length b \<le> k \<longrightarrow> top_bigrams b k = sorted_bigrams b) \<and>
   set (sorted_bigrams b) = set b \<and> length (sorted_bigrams b) = length b \<and>
   sorted_wrt (\<lambda>x y. snd y \<le> snd x) (sorted_bigrams b) \<and>
   (\<forall>c. filter (\<lambda>kv. snd kv = c) (sorted_bigrams b) = filter (\<lambda>kv. snd kv = c) b)"
proof -
  have len: "length (sorted_bigrams b) = length b"
    by (simp add: sorted_bigrams_def)
  have "sorted (map (\<lambda>kv. - snd kv) (sorted_bigrams b))"
    unfolding sorted_bigrams_def by (rule sorted_sort_key)
  then have desc: "sorted_wrt (\<lambda>x y. snd y \<le> snd x) (sorted_bigrams b)"
    by (simp add: sorted_map)
  have stable: "filter (\<lambda>kv. snd kv = c) (sorted_bigrams b) = filter (\<lambda>kv. snd kv = c) b" for c
    using sort_key_stable [of "\<lambda>kv. - snd kv" "- c" b] by (simp add: sorted_bigrams_def)
  have "take k (sorted_bigrams b) = take (min k (length b)) (sorted_bigrams b)"
    using len by (cases "k \<le> length b") (simp_all add: min_def)
  then show ?thesis
    using len desc stable by (simp add: top_bigrams_def min.commute) (simp add: sorted_bigrams_def)
qed

theorem top_bigrams_by_count_stable_witness:
  "top_bigrams (count_bigrams_sparse [''b'', ''a'']) 10 =
     [((''<S>'', ''b''), 1), ((''b'', ''<E>''), 1), ((''<S>'', ''a''), 1), ((''a'', ''<E>''), 1)] \<and>
   sorted_bigrams (count_bigrams_sparse [''b'', ''a'']) =
     [((''<S>'', ''b''), 1), ((''b'', ''<E>''), 1), ((''<S>'', ''a''), 1), ((''a'', ''<E>''), 1)]"
proof -
  have l: "length (count_bigrams_sparse [''b'', ''a'']) \<le> 10"
    by code_simp
  have v: "sorted_bigrams (count_bigrams_sparse [''b'', ''a'']) =
     [((''<S>'', ''b''), 1), ((''b'', ''<E>''), 1), ((''<S>'', ''a''), 1), ((''a'', ''<E>''), 1)]"
    by code_simp
  from top_bigrams_by_count_stable [of "count_bigrams_sparse [''b'', ''a'']" 10] l
  have "top_bigrams (count_bigrams_sparse [''b'', ''a'']) 10 =
      sorted_bigrams (count_bigrams_sparse [''b'', ''a''])"
    by blast
  with v show ?thesis by simp
qed

text \<open>
  C5, as stated (ties broken by the ascending lexicographic order of the pair), is false:
  for the words \<open>b\<close>, \<open>a\<close> all four bigrams have the count 1, the code ranks
  \<open>(<S>, b)\<close> first, as it was inserted first, and the stated order ranks \<open>(<S>, a)\<close>
  first.
\<close>

theorem top_bigrams_ties_counterexample:
  "top_bigrams (count_bigrams_sparse [''b'', ''a'']) 1 = [((''<S>'', ''b''), 1)] \<and>
   top_bigrams_spec (count_bigrams_sparse [''b'', ''a'']) 1 = [((''<S>'', ''a''), 1)]"
  by code_simp

section \<open>Lookups in the table of the dictionary loop\<close>

lemma dict_get_count_step:
  "dict_get (count_step p b) k 0 = dict_get b k 0 + (if k = p then 1 else 0)"
  by (simp add: count_step_def dict_get_def map_of_dict_setitem)

lemma dict_get_fold_count_step:
  "dict_get (fold count_step ps b) k 0 = dict_get b k 0 + int (count_list ps k)"
  by (induction ps arbitrary: b) (auto simp: dict_get_count_step)

lemma dom_count_step: "dom (map_of (count_step p b)) = insert p (dom (map_of b))"
  by (simp add: count_step_def map_of_dict_setitem)

lemma dom_fold_count_step: "dom (map_of (fold count_step ps b)) = dom (map_of b) \<union> set ps"
  by (induction ps arbitrary: b) (auto simp: dom_count_step)

lemma fold_count_word: "fold count_word ws b = fold count_step (sparse_bigrams ws) b"
  by (induction ws arbitrary: b) (simp_all add: sparse_bigrams_def count_word_def)

lemma sparse_as_fold: "count_bigrams_sparse words = fold count_step (sparse_bigrams words) []"
  by (simp add: count_bigrams_sparse_def fold_count_word)

lemma map_of_sparse:
  "map_of (count_bigrams_sparse words) k =
     (if k \<in> set (sparse_bigrams words) then Some (int (count_list (sparse_bigrams words) k))
      else None)"
proof (cases "k \<in> set (sparse_bigrams words)")
  case True
  then have "k \<in> dom (map_of (count_bigrams_sparse words))"
    by (simp add: sparse_as_fold dom_fold_count_step)
  then obtain c where c: "map_of (count_bigrams_sparse words) k = Some c"
    by auto
  then have "dict_get (count_bigrams_sparse words) k 0 = c"
    by (simp add: dict_get_def)
  then have "c = int (count_list (sparse_bigrams words) k)"
    by (simp add: sparse_as_fold dict_get_fold_count_step) (simp add: dict_get_def)
  with c True show ?thesis by simp
next
  case False
  then have "k \<notin> dom (map_of (count_bigrams_sparse words))"
    by (simp add: sparse_as_fold dom_fold_count_step)
  with False show ?thesis by auto
qed

section \<open>The two loops visit the same occurrences\<close>

lemma zip_next_map: "zip_next (map f xs) = map (map_prod f f) (zip_next xs)"
  by (simp add: zip_next_def drop_map zip_map_map map_prod_def)

lemma dense_symbol_single: "dense_symbol [c] = [c]"
  by (simp add: dense_symbol_def)

lemma chs_dot_SE: "chs_dot w = map dense_symbol (chs_SE w)"
  by (simp add: chs_dot_def chs_SE_def list_str_def dense_symbol_single) (simp add: dense_symbol_def)

lemma dense_bigrams_sparse:
  "dense_bigrams words = map (map_prod dense_symbol dense_symbol) (sparse_bigrams words)"
  by (induction words)
    (simp_all add: dense_bigrams_def sparse_bigrams_def chs_dot_SE zip_next_map)

lemma map_fst_sparse_bigrams:
  "map fst (sparse_bigrams words) = concat (map (\<lambda>w. ''<S>'' # list_str w) words)"
  by (induction words) (simp_all add: sparse_bigrams_def chs_SE_def fst_zip_next_bracket)

lemma map_snd_sparse_bigrams:
  "map snd (sparse_bigrams words) = concat (map (\<lambda>w. list_str w @ [''<E>'']) words)"
  by (induction words) (simp_all add: sparse_bigrams_def chs_SE_def snd_zip_next_bracket)

lemma symbols_sparse_bigrams:
  assumes "(ch1, ch2) \<in> set (sparse_bigrams words)"
  shows "ch1 = ''<S>'' \<or> (\<exists>w\<in>set words. \<exists>c\<in>set w. ch1 = [c])"
    and "ch2 = ''<E>'' \<or> (\<exists>w\<in>set words. \<exists>c\<in>set w. ch2 = [c])"
proof -
  from assms have "ch1 \<in> set (map fst (sparse_bigrams words))"
    by force
  then show "ch1 = ''<S>'' \<or> (\<exists>w\<in>set words. \<exists>c\<in>set w. ch1 = [c])"
    unfolding map_fst_sparse_bigrams by (auto simp: in_list_str split: if_splits)
  from assms have "ch2 \<in> set (map snd (sparse_bigrams words))"
    by force
  then show "ch2 = ''<E>'' \<or> (\<exists>w\<in>set words. \<exists>c\<in>set w. ch2 = [c])"
    unfolding map_snd_sparse_bigrams by (auto simp: in_list_str split: if_splits)
qed

lemma hits_map:
  "hits stoi (map (map_prod f f) ps) i j =
     length (filter (\<lambda>(ch1, ch2). map_of stoi (f ch1) = Some i \<and> map_of stoi (f ch2) = Some j) ps)"
  by (simp add: hits_def filter_map comp_def case_prod_unfold)

lemma count_list_filter: "count_list xs k = length (filter (\<lambda>x. x = k) xs)"
  by (induction xs) auto

lemma dense_symbol_inj_fst:
  assumes "\<forall>w\<in>set words. CHR ''.'' \<notin> set w"
    and "(p, n) \<in> set (sparse_bigrams words)" "(p', n') \<in> set (sparse_bigrams words)"
    and "dense_symbol p = dense_symbol p'"
  shows "p = p'"
  using symbols_sparse_bigrams(1) [OF assms(2)] symbols_sparse_bigrams(1) [OF assms(3)]
    assms(1,4)
  by (auto simp: dense_symbol_def)

lemma dense_symbol_inj_snd:
  assumes "\<forall>w\<in>set words. CHR ''.'' \<notin> set w"
    and "(p, n) \<in> set (sparse_bigrams words)" "(p', n') \<in> set (sparse_bigrams words)"
    and "dense_symbol n = dense_symbol n'"
  shows "n = n'"
  using symbols_sparse_bigrams(2) [OF assms(2)] symbols_sparse_bigrams(2) [OF assms(3)]
    assms(1,4)
  by (auto simp: dense_symbol_def)

lemma length_chars_of: "length (chars_of words) = Suc (length (derive_chars words))"
  by (simp add: chars_of_def with_boundary_def)

lemma set_chars_of: "set (chars_of words) = insert ''.'' (set (list_str (concat words)))"
  by (simp add: chars_of_def with_boundary_def set_derive_chars)

lemma index_of_occurring:
  assumes "(p, n) \<in> set (sparse_bigrams words)"
  shows "\<exists>i j. index_of (chars_of words) p = Some i \<and> index_of (chars_of words) n = Some j"
proof -
  have "dense_symbol p \<in> set (chars_of words)"
    using symbols_sparse_bigrams(1) [OF assms]
    by (auto simp: set_chars_of dense_symbol_def list_str_def)
  moreover have "dense_symbol n \<in> set (chars_of words)"
    using symbols_sparse_bigrams(2) [OF assms]
    by (auto simp: set_chars_of dense_symbol_def list_str_def)
  ultimately show ?thesis
    unfolding index_of_def by (meson stoi_member)
qed

lemma hits_dense_index:
  "hits (stoi_of (chars_of words)) (dense_bigrams words) i j =
     length (filter (\<lambda>(ch1, ch2). index_of (chars_of words) ch1 = Some i \<and>
                                  index_of (chars_of words) ch2 = Some j) (sparse_bigrams words))"
  by (simp add: dense_bigrams_sparse hits_map index_of_def)

lemma hits_occurring:
  assumes nodot: "\<forall>w\<in>set words. CHR ''.'' \<notin> set w"
    and occ: "(p, n) \<in> set (sparse_bigrams words)"
    and ix: "index_of (chars_of words) p = Some i" "index_of (chars_of words) n = Some j"
  shows "hits (stoi_of (chars_of words)) (dense_bigrams words) i j =
           count_list (sparse_bigrams words) (p, n)"
proof -
  have "(index_of (chars_of words) (fst q) = Some i \<and> index_of (chars_of words) (snd q) = Some j)
          \<longleftrightarrow> q = (p, n)"
    if q: "q \<in> set (sparse_bigrams words)" for q
  proof
    assume "q = (p, n)"
    with ix show "index_of (chars_of words) (fst q) = Some i \<and>
        index_of (chars_of words) (snd q) = Some j"
      by simp
  next
    assume a: "index_of (chars_of words) (fst q) = Some i \<and>
        index_of (chars_of words) (snd q) = Some j"
    from q have q': "(fst q, snd q) \<in> set (sparse_bigrams words)"
      by simp
    from a ix have "dense_symbol (fst q) = dense_symbol p" "dense_symbol (snd q) = dense_symbol n"
      unfolding index_of_def by (blast intro: stoi_inj)+
    then have "fst q = p" "snd q = n"
      using dense_symbol_inj_fst [OF nodot q' occ] dense_symbol_inj_snd [OF nodot q' occ]
      by blast+
    then show "q = (p, n)"
      by (simp add: prod_eq_iff)
  qed
  then have "filter (\<lambda>(ch1, ch2). index_of (chars_of words) ch1 = Some i \<and>
                 index_of (chars_of words) ch2 = Some j) (sparse_bigrams words) =
             filter (\<lambda>q. q = (p, n)) (sparse_bigrams words)"
    by (intro filter_cong) (auto simp: case_prod_unfold)
  then show ?thesis
    by (simp add: hits_dense_index count_list_filter)
qed

lemma hits_none:
  assumes "\<forall>prev next. index_of (chars_of words) prev = Some i \<and>
      index_of (chars_of words) next = Some j \<longrightarrow> (prev, next) \<notin> set (sparse_bigrams words)"
  shows "hits (stoi_of (chars_of words)) (dense_bigrams words) i j = 0"
  using assms by (auto simp: hits_dense_index filter_empty_conv)

lemma dense_cell_chars_of:
  "\<exists>N. dense_cell words = Inr N \<and> square (length (chars_of words)) N \<and>
       sum_matrix N = int (length (concat words)) + int (length words) \<and>
       (\<forall>i<length (chars_of words). \<forall>j<length (chars_of words).
          N ! i ! j = int (hits (stoi_of (chars_of words)) (dense_bigrams words) i j))"
  unfolding length_chars_of unfolding chars_of_def by (rule dense_cell_ok)

section \<open>Agreement of the two representations\<close>

text \<open>
  C1, as the code has it. For every word list the second cell returns a matrix, and its
  cells add up to the sum of the counts of the dictionary. If no word contains the
  character \<open>.\<close> (the boundary symbol of the second cell), the two agree cell by cell:
  every pair \<open>(prev, next)\<close> that is a key of the dictionary, with count \<open>c\<close>, has
  indices \<open>i\<close> and \<open>j\<close> (\<open><S>\<close> and \<open><E>\<close> read as \<open>.\<close>) and
  \<open>N[i, j] = c\<close>; and every cell \<open>(i, j)\<close> that is the position of no key of the
  dictionary is 0.
\<close>

theorem sparse_dense_agree:
  "\<exists>N. dense_cell words = Inr N \<and>
     sum_matrix N = sum_values (count_bigrams_sparse words) \<and>
     ((\<forall>w\<in>set words. CHR ''.'' \<notin> set w) \<longrightarrow>
        (\<forall>prev next c. map_of (count_bigrams_sparse words) (prev, next) = Some c \<longrightarrow>
           (\<exists>i j. index_of (chars_of words) prev = Some i \<and>
                  index_of (chars_of words) next = Some j \<and> N ! i ! j = c)) \<and>
        (\<forall>i<length (chars_of words). \<forall>j<length (chars_of words).
           (\<forall>prev next. index_of (chars_of words) prev = Some i \<and>
                         index_of (chars_of words) next = Some j \<longrightarrow>
                         map_of (count_bigrams_sparse words) (prev, next) = None) \<longrightarrow>
           N ! i ! j = 0))"
proof -
  from dense_cell_chars_of [of words] obtain N where N: "dense_cell words = Inr N"
    and total: "sum_matrix N = int (length (concat words)) + int (length words)"
    and cells: "\<forall>i<length (chars_of words). \<forall>j<length (chars_of words).
        N ! i ! j = int (hits (stoi_of (chars_of words)) (dense_bigrams words) i j)"
    by blast
  have agree: "\<exists>i j. index_of (chars_of words) prev = Some i \<and>
      index_of (chars_of words) next = Some j \<and> N ! i ! j = c"
    if nodot: "\<forall>w\<in>set words. CHR ''.'' \<notin> set w"
      and "map_of (count_bigrams_sparse words) (prev, next) = Some c" for prev "next" c
  proof -
    from that(2) have occ: "(prev, next) \<in> set (sparse_bigrams words)"
      and c: "c = int (count_list (sparse_bigrams words) (prev, next))"
      by (auto simp: map_of_sparse split: if_splits)
    from index_of_occurring [OF occ] obtain i j
      where ix: "index_of (chars_of words) prev = Some i" "index_of (chars_of words) next = Some j"
      by blast
    then have "i < length (chars_of words)" "j < length (chars_of words)"
      unfolding index_of_def using stoi_SomeD by blast+
    with cells have "N ! i ! j = int (hits (stoi_of (chars_of words)) (dense_bigrams words) i j)"
      by blast
    with hits_occurring [OF nodot occ ix] c ix show ?thesis
      by simp
  qed
  have zero: "N ! i ! j = 0"
    if "i < length (chars_of words)" "j < length (chars_of words)"
      and none: "\<forall>prev next. index_of (chars_of words) prev = Some i \<and>
                      index_of (chars_of words) next = Some j \<longrightarrow>
                      map_of (count_bigrams_sparse words) (prev, next) = None" for i j
  proof -
    from none have "\<forall>prev next. index_of (chars_of words) prev = Some i \<and>
      index_of (chars_of words) next = Some j \<longrightarrow> (prev, next) \<notin> set (sparse_bigrams words)"
      by (auto simp: map_of_sparse split: if_splits)
    from hits_none [OF this] cells that(1,2) show ?thesis
      by simp
  qed
  from N total agree zero show ?thesis
    by (intro exI [of _ N]) (simp add: sum_values_sparse)
qed

theorem sparse_dense_agree_witness:
  "dense_cell [''ab'', ''a''] = Inr [[0, 2, 0], [1, 0, 1], [1, 0, 0]] \<and>
   map_of (count_bigrams_sparse [''ab'', ''a'']) (''<S>'', ''a'') = Some 2 \<and>
   index_of (chars_of [''ab'', ''a'']) ''<S>'' = Some 0 \<and>
   index_of (chars_of [''ab'', ''a'']) ''a'' = Some 1 \<and>
   [[0, 2, 0], [1, 0, 1], [1, 0, 0]] ! 0 ! 1 = (2::int)"
proof -
  have h: "\<forall>w\<in>set [''ab'', ''a'']. CHR ''.'' \<notin> set w"
    by simp
  have v: "dense_cell [''ab'', ''a''] = Inr [[0, 2, 0], [1, 0, 1], [1, 0, 0]]"
    by code_simp
  have s: "map_of (count_bigrams_sparse [''ab'', ''a'']) (''<S>'', ''a'') = Some 2"
    by code_simp
  have i: "index_of (chars_of [''ab'', ''a'']) ''<S>'' = Some 0"
    "index_of (chars_of [''ab'', ''a'']) ''a'' = Some 1"
    by code_simp+
  from sparse_dense_agree [of "[''ab'', ''a'']"] obtain N
    where N: "dense_cell [''ab'', ''a''] = Inr N"
      and A: "(\<forall>w\<in>set [''ab'', ''a'']. CHR ''.'' \<notin> set w) \<longrightarrow>
        (\<forall>prev next c. map_of (count_bigrams_sparse [''ab'', ''a'']) (prev, next) = Some c \<longrightarrow>
           (\<exists>i j. index_of (chars_of [''ab'', ''a'']) prev = Some i \<and>
                  index_of (chars_of [''ab'', ''a'']) next = Some j \<and> N ! i ! j = c))"
    by blast
  from N v have NN: "N = [[0, 2, 0], [1, 0, 1], [1, 0, 0]]"
    by simp
  from A h s obtain i' j' where "index_of (chars_of [''ab'', ''a'']) ''<S>'' = Some i'"
    "index_of (chars_of [''ab'', ''a'']) ''a'' = Some j'" "N ! i' ! j' = 2"
    by blast
  with i NN have "[[0, 2, 0], [1, 0, 1], [1, 0, 0]] ! 0 ! 1 = (2::int)"
    by simp
  with v s i show ?thesis
    by simp
qed

text \<open>
  C1, as stated (for every word list), is false: a word may contain the character
  \<open>.\<close>. For the words \<open>.a\<close> and \<open>a\<close> the derived alphabet is \<open>['.', '.', 'a']\<close>, the
  comprehension for \<open>stoi\<close> keeps the later index for \<open>.\<close>, so the boundary and
  the character \<open>.\<close> share index 1: the pair \<open>(<S>, a)\<close> has count 1 in the dictionary
  and its cell \<open>N[1, 2]\<close> holds 2.
\<close>

theorem sparse_dense_boundary_clash_counterexample:
  "dense_cell [''.a'', ''a''] = Inr [[0, 0, 0], [0, 1, 2], [0, 2, 0]] \<and>
   chars_of [''.a'', ''a''] = [''.'', ''.'', ''a''] \<and>
   map_of (count_bigrams_sparse [''.a'', ''a'']) (''<S>'', ''a'') = Some 1 \<and>
   index_of (chars_of [''.a'', ''a'']) ''<S>'' = Some 1 \<and>
   index_of (chars_of [''.a'', ''a'']) ''a'' = Some 2 \<and>
   [[0, 0, 0], [0, 1, 2], [0, 2, 0]] ! 1 ! 2 \<noteq> (1::int)"
  by code_simp

end
